theory Spec2Isabelle
  imports Main
begin

section \<open>Data model\<close>

text \<open>
  The program (\<^verbatim>\<open>app.py\<close>) builds a table with a single row from the two form inputs,
  one-hot encodes the station column, aligns the columns with the list \<^verbatim>\<open>model_cols\<close>
  loaded at start, and hands the table to the loaded estimator.

  A cell of the table holds what the program puts there: the integer of the year slider,
  the text of the station field, the truth value written by the one-hot encoding, and the
  integer \<open>0\<close> written by the fill loop.
\<close>

datatype cell = IntC int | StrC string | BoolC bool

text \<open>
  A table with one row: its columns from left to right, each with the value of the row.
  Order matters and a table may in principle carry a name twice, so it is a list of pairs.
\<close>

type_synonym frame = "(string \<times> cell) list"

datatype error = KeyError string | IndexError | ValueError | InferenceError

definition columns :: "frame \<Rightarrow> string list" where
  "columns df = map fst df"

text \<open>
  The number a cell stands for when the table is turned into the numeric array of the
  estimator: \<^verbatim>\<open>True\<close> is 1 and \<^verbatim>\<open>False\<close> is 0, as in Python; text is no number.
\<close>

fun as_number :: "cell \<Rightarrow> int option" where
  "as_number (IntC i) = Some i"
| "as_number (BoolC b) = Some (if b then 1 else 0)"
| "as_number (StrC s) = None"

definition numeric_values :: "frame \<Rightarrow> int option list" where
  "numeric_values df = map (\<lambda>(n, v). as_number v) df"

subsection \<open>Text of a value\<close>

text \<open>Python's \<^verbatim>\<open>str\<close> on the values a cell can hold; it names the one-hot columns.\<close>

fun digits :: "nat \<Rightarrow> string" where
  "digits n =
     (if n < 10 then [char_of (48 + n)]
      else digits (n div 10) @ [char_of (48 + n mod 10)])"

declare digits.simps [simp del]

fun str_of_cell :: "cell \<Rightarrow> string" where
  "str_of_cell (StrC s) = s"
| "str_of_cell (IntC i) = (if i < 0 then CHR ''-'' # digits (nat (- i)) else digits (nat i))"
| "str_of_cell (BoolC b) = (if b then ''True'' else ''False'')"

section \<open>Table operations used by the program\<close>

text \<open>
  \<^verbatim>\<open>df[names]\<close>: the columns called \<open>names\<close>, in the order of \<open>names\<close>. Every column
  of the table that carries the name is taken; a name the table lacks raises
  \<^verbatim>\<open>KeyError\<close>.
\<close>

fun getitem :: "frame \<Rightarrow> string list \<Rightarrow> error + frame" where
  "getitem df [] = Inr []"
| "getitem df (c # cs) =
     (case filter (\<lambda>(n, v). n = c) df of
        [] \<Rightarrow> Inl (KeyError c)
      | hit # hits \<Rightarrow>
          (case getitem df cs of
             Inl e \<Rightarrow> Inl e
           | Inr rest \<Rightarrow> Inr ((hit # hits) @ rest)))"

text \<open>
  \<^verbatim>\<open>df[col] = v\<close>: overwrite the column where the table has it, append it on the right
  otherwise.
\<close>

definition setitem :: "frame \<Rightarrow> string \<Rightarrow> cell \<Rightarrow> frame" where
  "setitem df col v =
     (if col \<in> set (columns df)
      then map (\<lambda>(n, x). if n = col then (n, v) else (n, x)) df
      else df @ [(col, v)])"

text \<open>
  \<^verbatim>\<open>pd.get_dummies(data, columns=cols)\<close> on a table with one row: the columns that
  are not encoded stay, in their order; then, for each encoded column in the order of
  \<open>cols\<close>, one indicator column named \<^verbatim>\<open>\<open>column\<close>_\<open>value\<close>\<close> holding \<^verbatim>\<open>True\<close>
  (the single row has exactly the one category it shows; the indicator is a truth value,
  as in pandas 2, and reads as the number 1).
\<close>

definition dummy_col :: "string \<times> cell \<Rightarrow> string \<times> cell" where
  "dummy_col nv = (fst nv @ ''_'' @ str_of_cell (snd nv), BoolC True)"

definition get_dummies :: "frame \<Rightarrow> string list \<Rightarrow> error + frame" where
  "get_dummies data cols =
     (case getitem data cols of
        Inl e \<Rightarrow> Inl e
      | Inr data_to_encode \<Rightarrow>
          Inr (filter (\<lambda>(n, v). n \<notin> set cols) data @ map dummy_col data_to_encode))"

section \<open>The encoding step (lines 104 to 110)\<close>

text \<open>
  \<^verbatim>\<open>
  for col in model_cols:
      if col not in input_encoded.columns:
          input_encoded[col] = 0
  \<close>
\<close>

fun fill_missing :: "string list \<Rightarrow> frame \<Rightarrow> frame" where
  "fill_missing [] input_encoded = input_encoded"
| "fill_missing (col # cols) input_encoded =
     fill_missing cols
       (if col \<notin> set (columns input_encoded)
        then setitem input_encoded col (IntC 0)
        else input_encoded)"

text \<open>
  \<^verbatim>\<open>
  input_df = pd.DataFrame({'year': [year_input], 'id': [station_id]})
  input_encoded = pd.get_dummies(input_df, columns=['id'])
  (fill loop)
  input_encoded = input_encoded[model_cols]
  \<close>
\<close>

definition encode :: "int \<Rightarrow> string \<Rightarrow> string list \<Rightarrow> error + frame" where
  "encode year_input station_id model_cols =
     (let input_df = [(''year'', IntC year_input), (''id'', StrC station_id)] in
      case get_dummies input_df [''id''] of
        Inl e \<Rightarrow> Inl e
      | Inr input_encoded \<Rightarrow> getitem (fill_missing model_cols input_encoded) model_cols)"

section \<open>The prediction step (line 113)\<close>

text \<open>
  The estimator is an artifact that the program loads from a file at start and then only
  calls through \<^verbatim>\<open>predict\<close>. It is a parameter of the model: a function from the
  table it is given to the two-dimensional array of its answer (one list per row), or to
  the error it raises when it rejects the table. The type \<open>'v\<close> of the predicted
  values is left open.
\<close>

type_synonym 'v estimator = "frame \<Rightarrow> error + 'v list list"

text \<open>\<^verbatim>\<open>predicted_pollutants = model.predict(input_encoded)[0]\<close>\<close>

definition predict :: "'v estimator \<Rightarrow> frame \<Rightarrow> error + 'v list" where
  "predict model input_encoded =
     (case model input_encoded of
        Inl e \<Rightarrow> Inl e
      | Inr result \<Rightarrow>
          (case result of
             [] \<Rightarrow> Inl IndexError
           | row # rows \<Rightarrow> Inr row))"

text \<open>
  An estimator fitted on \<open>k\<close> targets answers with \<open>k\<close> values for every row.
\<close>

definition trained_on :: "nat \<Rightarrow> 'v estimator \<Rightarrow> bool" where
  "trained_on k model =
     (\<forall>x result. model x = Inr result \<longrightarrow> (\<forall>row \<in> set result. length row = k))"

section \<open>The page (lines 99 to 182)\<close>

text \<open>
  What the left column of the page shows. Static text is kept by its heading only; labels
  are written in ASCII.
\<close>

datatype 'v widget =
    Station_warning
  | Success string int
  | Metric string 'v string
  | Bar_chart "(string \<times> 'v) list"
  | Markdown string
  | Info
  | Exception error

text \<open>
  The state of the process: the two artifacts bound at lines 10 and 11, and the elements
  that the last run of the script put into the left column.
\<close>

record 'v app_state =
  model :: "'v estimator"
  model_cols :: "string list"
  screen :: "'v widget list"

definition pollutants :: "string list" where
  "pollutants = [''O2'', ''NO3'', ''NO2'', ''SO4'', ''PO4'', ''Cl-'']"

definition pollutant_units :: "string list" where
  "pollutant_units = [''mg/L'', ''mg/L'', ''mg/L'', ''mg/L'', ''mg/L'', ''mg/L'']"

text \<open>
  Lines 117 to 157: the success line, one metric for each triple of the \<^verbatim>\<open>zip\<close>
  (which stops at the shortest list), the chart, the guide. Building the table of the
  chart raises \<^verbatim>\<open>ValueError\<close> when the two lists differ in length; what was shown
  before stays.
\<close>

definition show_results :: "string \<Rightarrow> int \<Rightarrow> 'v list \<Rightarrow> 'v widget list" where
  "show_results station_id year_input predicted_pollutants =
     Success station_id year_input
     # map (\<lambda>(pollutant, value, unit). Metric pollutant value unit)
         (zip pollutants (zip predicted_pollutants pollutant_units))
     @ Markdown ''Pollutant Levels Visualization''
     # (if length predicted_pollutants = length pollutants
        then [Bar_chart (zip pollutants predicted_pollutants),
              Markdown ''Interpretation Guide'']
        else [Exception ValueError])"

text \<open>Lines 104 to 113 in one piece: the table that is built and the values predicted from it.\<close>

definition encode_predict ::
  "'v app_state \<Rightarrow> int \<Rightarrow> string \<Rightarrow> error + (frame \<times> 'v list)" where
  "encode_predict s year_input station_id =
     (case encode year_input station_id (model_cols s) of
        Inl e \<Rightarrow> Inl e
      | Inr input_encoded \<Rightarrow>
          (case predict (model s) input_encoded of
             Inl e \<Rightarrow> Inl e
           | Inr predicted_pollutants \<Rightarrow> Inr (input_encoded, predicted_pollutants)))"

text \<open>
  Lines 99 to 182. \<^verbatim>\<open>if not station_id\<close> is Python's truth test of a string: only the
  empty string is false. An exception ends the run and is shown in place of the results.
\<close>

definition page :: "'v app_state \<Rightarrow> bool \<Rightarrow> int \<Rightarrow> string \<Rightarrow> 'v widget list" where
  "page s predict_button year_input station_id =
     (if predict_button then
        (if station_id = [] then [Station_warning]
         else
           (case encode_predict s year_input station_id of
              Inl e \<Rightarrow> [Exception e]
            | Inr (input_encoded, predicted_pollutants) \<Rightarrow>
                show_results station_id year_input predicted_pollutants))
      else [Info, Markdown ''About Water Quality Monitoring''])"

definition handler :: "'v app_state \<Rightarrow> bool \<Rightarrow> int \<Rightarrow> string \<Rightarrow> 'v app_state" where
  "handler s predict_button year_input station_id =
     s\<lparr>screen := page s predict_button year_input station_id\<rparr>"

section \<open>Lines 104 to 113 on an explicit store\<close>

text \<open>
  Python binds names to objects, and an assignment into a table changes the object that
  the name stands for. To say which objects a run writes to, the same lines are given a
  second time over a store: the script's names bound to addresses, and a heap of objects.
  A new object takes the next free address of the heap.
\<close>

type_synonym addr = nat

datatype ('m, 'v) obj = EstObj 'm | ListObj "string list" | FrameObj frame | ArrayObj "'v list"

datatype fault = NameError string | TypeError | Raised error

record ('m, 'v) memory =
  globals :: "string \<rightharpoonup> addr"
  heap :: "('m, 'v) obj list"

text \<open>
  Over the store the estimator is an object with a state \<open>'m\<close> of its own, and its
  \<^verbatim>\<open>predict\<close> is a parameter that returns the answer together with the state it leaves
  the estimator in.
\<close>

type_synonym ('m, 'v) predict_method = "'m \<Rightarrow> frame \<Rightarrow> (error + 'v list list) \<times> 'm"

text \<open>\<^verbatim>\<open>name = \<open>a new object\<close>\<close>\<close>

definition new :: "('m, 'v) obj \<Rightarrow> string \<Rightarrow> ('m, 'v) memory \<Rightarrow> ('m, 'v) memory" where
  "new ob name mem =
     mem\<lparr>globals := (globals mem)(name \<mapsto> length (heap mem)), heap := heap mem @ [ob]\<rparr>"

text \<open>Reading a name, and reading it as an object of the kind the operation needs.\<close>

definition lookup :: "('m, 'v) memory \<Rightarrow> string \<Rightarrow> fault + addr \<times> ('m, 'v) obj" where
  "lookup mem name =
     (case globals mem name of
        None \<Rightarrow> Inl (NameError name)
      | Some a \<Rightarrow> if a < length (heap mem) then Inr (a, heap mem ! a) else Inl (NameError name))"

definition frame_at :: "('m, 'v) memory \<Rightarrow> string \<Rightarrow> fault + addr \<times> frame" where
  "frame_at mem name =
     (case lookup mem name of
        Inl f \<Rightarrow> Inl f
      | Inr (a, ob) \<Rightarrow> (case ob of FrameObj df \<Rightarrow> Inr (a, df) | _ \<Rightarrow> Inl TypeError))"

definition list_at :: "('m, 'v) memory \<Rightarrow> string \<Rightarrow> fault + addr \<times> string list" where
  "list_at mem name =
     (case lookup mem name of
        Inl f \<Rightarrow> Inl f
      | Inr (a, ob) \<Rightarrow> (case ob of ListObj xs \<Rightarrow> Inr (a, xs) | _ \<Rightarrow> Inl TypeError))"

definition est_at :: "('m, 'v) memory \<Rightarrow> string \<Rightarrow> fault + addr \<times> 'm" where
  "est_at mem name =
     (case lookup mem name of
        Inl f \<Rightarrow> Inl f
      | Inr (a, ob) \<Rightarrow> (case ob of EstObj m \<Rightarrow> Inr (a, m) | _ \<Rightarrow> Inl TypeError))"

text \<open>Writing an object in place.\<close>

definition store :: "addr \<Rightarrow> ('m, 'v) obj \<Rightarrow> ('m, 'v) memory \<Rightarrow> ('m, 'v) memory" where
  "store a ob mem = mem\<lparr>heap := (heap mem)[a := ob]\<rparr>"

text \<open>One statement after another; an exception ends the run with the store as it is then.\<close>

definition seq ::
  "('s \<Rightarrow> 's \<times> (fault + unit)) \<Rightarrow> ('s \<Rightarrow> 's \<times> (fault + 'a)) \<Rightarrow> 's \<Rightarrow> 's \<times> (fault + 'a)" where
  "seq p q mem = (case p mem of (mem', Inl f) \<Rightarrow> (mem', Inl f) | (mem', Inr u) \<Rightarrow> q mem')"

definition line_104 :: "int \<Rightarrow> string \<Rightarrow> ('m, 'v) memory \<Rightarrow> ('m, 'v) memory \<times> (fault + unit)" where
  "line_104 year_input station_id mem =
     (new (FrameObj [(''year'', IntC year_input), (''id'', StrC station_id)]) ''input_df'' mem,
      Inr ())"

definition line_105 :: "('m, 'v) memory \<Rightarrow> ('m, 'v) memory \<times> (fault + unit)" where
  "line_105 mem =
     (case frame_at mem ''input_df'' of
        Inl f \<Rightarrow> (mem, Inl f)
      | Inr (a, input_df) \<Rightarrow>
          (case get_dummies input_df [''id''] of
             Inl e \<Rightarrow> (mem, Inl (Raised e))
           | Inr encoded \<Rightarrow> (new (FrameObj encoded) ''input_encoded'' mem, Inr ())))"

text \<open>
  The loop of lines 107 to 109: \<^verbatim>\<open>input_encoded[col] = 0\<close> writes into the object
  that \<^verbatim>\<open>input_encoded\<close> names.
\<close>

fun fill_loop :: "string list \<Rightarrow> ('m, 'v) memory \<Rightarrow> ('m, 'v) memory \<times> (fault + unit)" where
  "fill_loop [] mem = (mem, Inr ())"
| "fill_loop (col # cols) mem =
     (case frame_at mem ''input_encoded'' of
        Inl f \<Rightarrow> (mem, Inl f)
      | Inr (a, input_encoded) \<Rightarrow>
          fill_loop cols
            (if col \<notin> set (columns input_encoded)
             then store a (FrameObj (setitem input_encoded col (IntC 0))) mem
             else mem))"

definition lines_107_109 :: "('m, 'v) memory \<Rightarrow> ('m, 'v) memory \<times> (fault + unit)" where
  "lines_107_109 mem =
     (case list_at mem ''model_cols'' of
        Inl f \<Rightarrow> (mem, Inl f)
      | Inr (a, cols) \<Rightarrow> fill_loop cols mem)"

definition line_110 :: "('m, 'v) memory \<Rightarrow> ('m, 'v) memory \<times> (fault + unit)" where
  "line_110 mem =
     (case frame_at mem ''input_encoded'' of
        Inl f \<Rightarrow> (mem, Inl f)
      | Inr (a, input_encoded) \<Rightarrow>
          (case list_at mem ''model_cols'' of
             Inl f \<Rightarrow> (mem, Inl f)
           | Inr (b, cols) \<Rightarrow>
               (case getitem input_encoded cols of
                  Inl e \<Rightarrow> (mem, Inl (Raised e))
                | Inr selected \<Rightarrow> (new (FrameObj selected) ''input_encoded'' mem, Inr ()))))"

text \<open>
  Line 113: the estimator object is left in the state its \<^verbatim>\<open>predict\<close> returns, and
  the row taken from the answer is a new object.
\<close>

definition line_113 ::
  "('m, 'v) predict_method \<Rightarrow> ('m, 'v) memory \<Rightarrow> ('m, 'v) memory \<times> (fault + 'v list)" where
  "line_113 predict_method mem =
     (case est_at mem ''model'' of
        Inl f \<Rightarrow> (mem, Inl f)
      | Inr (a, m) \<Rightarrow>
          (case frame_at mem ''input_encoded'' of
             Inl f \<Rightarrow> (mem, Inl f)
           | Inr (b, input_encoded) \<Rightarrow>
               (let (answer, m') = predict_method m input_encoded;
                    mem' = store a (EstObj m') mem
                in case answer of
                     Inl e \<Rightarrow> (mem', Inl (Raised e))
                   | Inr result \<Rightarrow>
                       (case result of
                          [] \<Rightarrow> (mem', Inl (Raised IndexError))
                        | row # rows \<Rightarrow>
                            (new (ArrayObj row) ''predicted_pollutants'' mem', Inr row)))))"

definition lines_104_113 ::
  "('m, 'v) predict_method \<Rightarrow> int \<Rightarrow> string \<Rightarrow> ('m, 'v) memory
     \<Rightarrow> ('m, 'v) memory \<times> (fault + 'v list)" where
  "lines_104_113 predict_method year_input station_id =
     seq (line_104 year_input station_id)
       (seq line_105 (seq lines_107_109 (seq line_110 (line_113 predict_method))))"

section \<open>A sample estimator and state for the worked examples\<close>

text \<open>
  An estimator with six targets that accepts tables of three columns and rejects every
  other table, and a state that holds it together with three column names.
\<close>

definition demo_model :: "int estimator" where
  "demo_model x = (if length x = 3 then Inr [[8, 5, 1, 40, 2, 60]] else Inl InferenceError)"

definition demo_state :: "int widget list \<Rightarrow> int app_state" where
  "demo_state ws = \<lparr>model = demo_model, model_cols = [''year'', ''id_1'', ''id_2''], screen = ws\<rparr>"



section \<open>Facts about the table operations\<close>

text \<open>
  As long as no name occurs twice among the columns, selecting by name takes exactly one
  column for each name asked for.
\<close>

lemma filter_name_distinct:
  "distinct (map fst df) \<Longrightarrow> map_of df c = Some v \<Longrightarrow> filter (\<lambda>(n, x). n = c) df = [(c, v)]"
proof (induction df)
  case Nil
  then show ?case by simp
next
  case (Cons p df)
  obtain n x where p: "p = (n, x)" by (cases p)
  show ?case
  proof (cases "n = c")
    case True
    with Cons.prems p have v: "x = v" and fresh: "c \<notin> fst ` set df" by auto
    from fresh have "filter (\<lambda>(n, x). n = c) df = []"
      by (force simp: filter_empty_conv)
    with True p v show ?thesis by simp
  next
    case False
    with Cons p show ?thesis by simp
  qed
qed

lemma getitem_distinct:
  "distinct (map fst df) \<Longrightarrow> set cs \<subseteq> fst ` set df \<Longrightarrow>
   getitem df cs = Inr (map (\<lambda>c. (c, the (map_of df c))) cs)"
proof (induction cs)
  case Nil
  then show ?case by simp
next
  case (Cons c cs)
  from Cons.prems have "c \<in> fst ` set df" by simp
  then obtain v where v: "map_of df c = Some v"
    by (metis domD dom_map_of_conv_image_fst)
  with Cons.prems have "filter (\<lambda>(n, x). n = c) df = [(c, v)]"
    by (simp add: filter_name_distinct)
  with Cons v show ?case by simp
qed

text \<open>The fill loop keeps the names distinct, keeps what is there, and adds each missing name with 0.\<close>

lemma setitem_fresh:
  "col \<notin> set (columns df) \<Longrightarrow> setitem df col v = df @ [(col, v)]"
  by (simp add: setitem_def)

lemma columns_setitem:
  "set (columns (setitem df col v)) = insert col (set (columns df))"
proof (cases "col \<in> set (columns df)")
  case True
  have "map fst (map (\<lambda>(n, x). if n = col then (n, v) else (n, x)) df) = map fst df"
    by (induction df) auto
  with True show ?thesis by (auto simp: setitem_def columns_def)
next
  case False
  then show ?thesis by (simp add: setitem_def columns_def)
qed

lemma fill_missing_distinct:
  "distinct (columns df) \<Longrightarrow> distinct (columns (fill_missing cols df))"
  by (induction cols arbitrary: df) (simp_all add: setitem_def columns_def)

lemma fill_missing_keeps:
  "set (columns df) \<subseteq> set (columns (fill_missing cols df))"
proof (induction cols arbitrary: df)
  case Nil
  show ?case by simp
next
  case (Cons c cols)
  let ?df' = "if c \<notin> set (columns df) then setitem df c (IntC 0) else df"
  have "set (columns df) \<subseteq> set (columns ?df')"
    by (simp add: columns_setitem subset_insertI)
  also have "\<dots> \<subseteq> set (columns (fill_missing cols ?df'))"
    by (rule Cons.IH)
  finally show ?case by simp
qed

lemma fill_missing_covers:
  "set cols \<subseteq> set (columns (fill_missing cols df))"
proof (induction cols arbitrary: df)
  case Nil
  show ?case by simp
next
  case (Cons c cols)
  let ?df' = "if c \<notin> set (columns df) then setitem df c (IntC 0) else df"
  have "c \<in> set (columns ?df')"
    by (simp add: columns_setitem)
  with fill_missing_keeps [of ?df' cols]
  have "c \<in> set (columns (fill_missing cols ?df'))" by blast
  with Cons.IH [of ?df'] show ?case by simp
qed

lemma map_of_snoc:
  "map_of (df @ [(a, v)]) c =
     (if c \<in> set (columns df) then map_of df c else if c = a then Some v else None)"
proof (cases "map_of df c")
  case None
  then have "c \<notin> set (columns df)"
    by (simp add: columns_def map_of_eq_None_iff)
  with None show ?thesis by (simp add: map_add_def)
next
  case (Some x)
  then have "c \<in> set (columns df)"
    unfolding columns_def by (metis map_of_eq_None_iff option.distinct(1) set_map)
  with Some show ?thesis by (simp add: map_add_def)
qed

lemma fill_missing_lookup:
  "map_of (fill_missing cols df) c =
     (if c \<in> set (columns df) then map_of df c
      else if c \<in> set cols then Some (IntC 0) else None)"
proof (induction cols arbitrary: df)
  case Nil
  show ?case by (simp add: columns_def map_of_eq_None_iff)
next
  case (Cons a cols)
  show ?case
  proof (cases "a \<in> set (columns df)")
    case True
    then show ?thesis using Cons.IH [of df] by auto
  next
    case False
    let ?df' = "df @ [(a, IntC 0)]"
    from False have step: "fill_missing (a # cols) df = fill_missing cols ?df'"
      by (simp add: setitem_def)
    have cols': "set (columns ?df') = insert a (set (columns df))"
      by (simp add: columns_def)
    show ?thesis
      unfolding step Cons.IH [of ?df'] cols' map_of_snoc
      using False by auto
  qed
qed

section \<open>The encoding step in closed form\<close>

text \<open>
  The table that leaves line 110 has, for each name of \<^verbatim>\<open>model_cols\<close> in turn, the year
  under \<^verbatim>\<open>year\<close>, \<^verbatim>\<open>True\<close> under the name of the station's indicator, and 0 under
  every other name.
\<close>

lemma encode_closed_form:
  "encode year_input station_id mcols =
     Inr (map (\<lambda>c. (c, if c = ''year'' then IntC year_input
                        else if c = ''id_'' @ station_id then BoolC True
                        else IntC 0)) mcols)"
proof -
  let ?df = "[(''year'', IntC year_input), (''id_'' @ station_id, BoolC True)]"
  have gd: "get_dummies [(''year'', IntC year_input), (''id'', StrC station_id)] [''id''] = Inr ?df"
    by (simp add: get_dummies_def dummy_col_def)
  have d: "distinct (columns ?df)" by (simp add: columns_def)
  have "getitem (fill_missing mcols ?df) mcols =
        Inr (map (\<lambda>c. (c, the (map_of (fill_missing mcols ?df) c))) mcols)"
    using fill_missing_distinct [OF d, of mcols] fill_missing_covers [of mcols ?df]
    by (intro getitem_distinct) (simp_all add: columns_def)
  also have "map (\<lambda>c. (c, the (map_of (fill_missing mcols ?df) c))) mcols =
     map (\<lambda>c. (c, if c = ''year'' then IntC year_input
                        else if c = ''id_'' @ station_id then BoolC True
                        else IntC 0)) mcols"
    by (rule map_cong) (auto simp: fill_missing_lookup columns_def)
  finally show ?thesis using gd by (simp add: encode_def)
qed


lemma encode_cells:
  assumes "encode year_input station_id mcols = Inr out" and "(c, v) \<in> set out"
  shows "c \<in> set mcols"
    and "v = (if c = ''year'' then IntC year_input
              else if c = ''id_'' @ station_id then BoolC True else IntC 0)"
  using assms unfolding encode_closed_form by auto

lemma encode_columns: "encode year_input station_id mcols = Inr out \<Longrightarrow> columns out = mcols"
  unfolding encode_closed_form columns_def by (auto simp: comp_def)

lemma encode_has:
  assumes "encode year_input station_id mcols = Inr out" and "c \<in> set mcols"
  shows "(c, if c = ''year'' then IntC year_input
             else if c = ''id_'' @ station_id then BoolC True else IntC 0) \<in> set out"
proof -
  let ?f = "\<lambda>c. (c, if c = ''year'' then IntC year_input
                     else if c = ''id_'' @ station_id then BoolC True else IntC 0)"
  from assms(1) have "out = map ?f mcols"
    unfolding encode_closed_form by simp
  then have "set out = ?f ` set mcols" by simp
  with assms(2) show ?thesis by blast
qed

lemma encode_succeeds: "\<exists>out. encode year_input station_id mcols = Inr out"
  by (simp add: encode_closed_form)

lemma count_list_distinct:
  "distinct xs \<Longrightarrow> x \<in> set xs \<Longrightarrow> count_list xs x = 1"
  by (induction xs) auto

section \<open>Properties of the encoding step\<close>

text \<open>
  C1. Whatever the year, the station text (empty or not) and the list \<^verbatim>\<open>model_cols\<close>, the
  encoding step returns a table whose column names are exactly \<^verbatim>\<open>model_cols\<close>: the same
  length, the same names at the same positions, and nothing else. Each name is there as
  often as \<^verbatim>\<open>model_cols\<close> lists it, hence exactly once when the list has no repetition.
\<close>

theorem encode_columns_aligned:
  "\<exists>out. encode year_input station_id mcols = Inr out
         \<and> columns out = mcols \<and> length out = length mcols
         \<and> (\<forall>c. count_list (columns out) c = count_list mcols c)
         \<and> (distinct mcols \<longrightarrow> (\<forall>c \<in> set mcols. count_list (columns out) c = 1))"
proof -
  obtain out where out: "encode year_input station_id mcols = Inr out"
    using encode_succeeds by blast
  then have c: "columns out = mcols" by (rule encode_columns)
  then have "length out = length mcols"
    by (metis columns_def length_map)
  moreover have "count_list mcols c = 1" if "distinct mcols" and "c \<in> set mcols" for c
    using that by (rule count_list_distinct)
  ultimately show ?thesis using out c by auto
qed

theorem encode_columns_aligned_witness:
  "distinct [''id_7'', ''year'', ''id_8'']
   \<and> (\<exists>out. encode 2025 ''7'' [''id_7'', ''year'', ''id_8''] = Inr out
         \<and> columns out = [''id_7'', ''year'', ''id_8''] \<and> length out = 3
         \<and> count_list (columns out) ''id_7'' = 1
         \<and> count_list (columns out) ''year'' = 1
         \<and> count_list (columns out) ''id_8'' = 1)"
proof -
  have h: "distinct [''id_7'', ''year'', ''id_8'']" by simp
  show ?thesis
    using h encode_columns_aligned [of 2025 "''7''" "[''id_7'', ''year'', ''id_8'']"]
    by (auto simp: eval_nat_numeral)
qed

text \<open>
  C2. With the columns \<^verbatim>\<open>['year', 'id_1', 'id_2']\<close>, the year 2025 and station \<^verbatim>\<open>'1'\<close>
  give the row 2025, \<^verbatim>\<open>True\<close>, 0, which reads as the numbers 2025, 1, 0; station
  \<^verbatim>\<open>'99'\<close> gives 2025, 0, 0.
\<close>

theorem encode_end_to_end_example:
  "encode 2025 ''1'' [''year'', ''id_1'', ''id_2'']
     = Inr [(''year'', IntC 2025), (''id_1'', BoolC True), (''id_2'', IntC 0)]
   \<and> map_sum id numeric_values (encode 2025 ''1'' [''year'', ''id_1'', ''id_2''])
     = Inr [Some 2025, Some 1, Some 0]
   \<and> encode 2025 ''99'' [''year'', ''id_1'', ''id_2'']
     = Inr [(''year'', IntC 2025), (''id_1'', IntC 0), (''id_2'', IntC 0)]
   \<and> map_sum id numeric_values (encode 2025 ''99'' [''year'', ''id_1'', ''id_2''])
     = Inr [Some 2025, Some 0, Some 0]"
  by (simp add: encode_def get_dummies_def dummy_col_def setitem_def columns_def
      numeric_values_def)

text \<open>
  C3. When the indicator name of the station, \<^verbatim>\<open>id_\<close> followed by the station text, is
  not among \<^verbatim>\<open>model_cols\<close>, the encoding step still returns a table: the year stands in
  every column called \<^verbatim>\<open>year\<close> (and there is one if \<^verbatim>\<open>model_cols\<close> names it), and
  every other column holds 0.
\<close>

theorem unknown_station_all_zero:
  assumes "''id_'' @ station_id \<notin> set mcols"
  shows "\<exists>out. encode year_input station_id mcols = Inr out
           \<and> columns out = mcols
           \<and> (\<forall>(c, v) \<in> set out. v = (if c = ''year'' then IntC year_input else IntC 0))
           \<and> (''year'' \<in> set mcols \<longrightarrow> (''year'', IntC year_input) \<in> set out)"
proof -
  obtain out where out: "encode year_input station_id mcols = Inr out"
    using encode_succeeds by blast
  have "v = (if c = ''year'' then IntC year_input else IntC 0)" if "(c, v) \<in> set out" for c v
    using encode_cells [OF out that] assms by auto
  moreover have "(''year'', IntC year_input) \<in> set out" if "''year'' \<in> set mcols"
    using encode_has [OF out that] by simp
  ultimately show ?thesis using out encode_columns [OF out] by blast
qed

theorem unknown_station_all_zero_witness:
  "''id_'' @ ''99'' \<notin> set [''id_1'', ''year'', ''id_2'']
   \<and> (\<exists>out. encode 2031 ''99'' [''id_1'', ''year'', ''id_2''] = Inr out
           \<and> columns out = [''id_1'', ''year'', ''id_2'']
           \<and> (\<forall>(c, v) \<in> set out. v = (if c = ''year'' then IntC 2031 else IntC 0))
           \<and> (''year'', IntC 2031) \<in> set out)"
proof -
  have h: "''id_'' @ ''99'' \<notin> set [''id_1'', ''year'', ''id_2'']" by simp
  show ?thesis using h unknown_station_all_zero [OF h, of 2031] by simp
qed

text \<open>
  C4. When the indicator name of the station is among \<^verbatim>\<open>model_cols\<close>, the table has that
  column, it reads as 1 there, and every column other than it and \<^verbatim>\<open>year\<close> (so every
  other indicator column) reads as 0.
\<close>

theorem known_station_one_hot:
  assumes "''id_'' @ station_id \<in> set mcols"
  shows "\<exists>out. encode year_input station_id mcols = Inr out
           \<and> columns out = mcols
           \<and> (''id_'' @ station_id, BoolC True) \<in> set out
           \<and> (\<forall>(c, v) \<in> set out.
                 (c = ''id_'' @ station_id \<longrightarrow> as_number v = Some 1)
               \<and> (c \<noteq> ''id_'' @ station_id \<and> c \<noteq> ''year'' \<longrightarrow> as_number v = Some 0))"
proof -
  obtain out where out: "encode year_input station_id mcols = Inr out"
    using encode_succeeds by blast
  have "(c = ''id_'' @ station_id \<longrightarrow> as_number v = Some 1)
      \<and> (c \<noteq> ''id_'' @ station_id \<and> c \<noteq> ''year'' \<longrightarrow> as_number v = Some 0)"
    if "(c, v) \<in> set out" for c v
    using encode_cells(2) [OF out that] by auto
  moreover have "(''id_'' @ station_id, BoolC True) \<in> set out"
    using encode_has [OF out assms] by simp
  ultimately show ?thesis using out encode_columns [OF out] by blast
qed

theorem known_station_one_hot_witness:
  "''id_'' @ ''2'' \<in> set [''year'', ''id_1'', ''id_2'', ''id_3'']
   \<and> (\<exists>out. encode 2040 ''2'' [''year'', ''id_1'', ''id_2'', ''id_3''] = Inr out
           \<and> columns out = [''year'', ''id_1'', ''id_2'', ''id_3'']
           \<and> (''id_2'', BoolC True) \<in> set out
           \<and> (\<forall>(c, v) \<in> set out.
                 (c = ''id_2'' \<longrightarrow> as_number v = Some 1)
               \<and> (c \<noteq> ''id_2'' \<and> c \<noteq> ''year'' \<longrightarrow> as_number v = Some 0)))"
proof -
  have h: "''id_'' @ ''2'' \<in> set [''year'', ''id_1'', ''id_2'', ''id_3'']" by simp
  show ?thesis using h known_station_one_hot [OF h, of 2040] by simp
qed

section \<open>Facts about the store\<close>

lemma store_same: "heap mem ! a = ob \<Longrightarrow> store a ob mem = mem"
proof -
  assume "heap mem ! a = ob"
  then have "(heap mem)[a := ob] = heap mem" by (metis list_update_id)
  then show ?thesis by (simp add: store_def)
qed

lemma store_twice: "store a ob (store a ob' mem) = store a ob mem"
  by (simp add: store_def)

lemma frame_at_store:
  "globals mem name = Some a \<Longrightarrow> a < length (heap mem) \<Longrightarrow>
   frame_at (store a (FrameObj df) mem) name = Inr (a, df)"
  by (simp add: frame_at_def lookup_def store_def)

lemma frame_at_hit:
  "globals mem name = Some a \<Longrightarrow> a < length (heap mem) \<Longrightarrow> heap mem ! a = FrameObj df \<Longrightarrow>
   frame_at mem name = Inr (a, df)"
  by (simp add: frame_at_def lookup_def)

lemma list_at_hit:
  "globals mem name = Some a \<Longrightarrow> a < length (heap mem) \<Longrightarrow> heap mem ! a = ListObj xs \<Longrightarrow>
   list_at mem name = Inr (a, xs)"
  by (simp add: list_at_def lookup_def)

lemma est_at_hit:
  "globals mem name = Some a \<Longrightarrow> a < length (heap mem) \<Longrightarrow> heap mem ! a = EstObj m \<Longrightarrow>
   est_at mem name = Inr (a, m)"
  by (simp add: est_at_def lookup_def)

lemma fill_loop_heap:
  "globals mem ''input_encoded'' = Some a \<Longrightarrow> a < length (heap mem) \<Longrightarrow>
   heap mem ! a = FrameObj df \<Longrightarrow>
   fill_loop cols mem = (store a (FrameObj (fill_missing cols df)) mem, Inr ())"
proof (induction cols arbitrary: mem df)
  case Nil
  then show ?case by (simp add: store_same [of mem a])
next
  case (Cons col cols)
  from Cons.prems have at: "frame_at mem ''input_encoded'' = Inr (a, df)"
    by (rule frame_at_hit)
  show ?case
  proof (cases "col \<in> set (columns df)")
    case True
    with at Cons.IH [OF Cons.prems] show ?thesis by simp
  next
    case False
    let ?df' = "setitem df col (IntC 0)"
    let ?mem' = "store a (FrameObj ?df') mem"
    have "globals ?mem' ''input_encoded'' = Some a" "a < length (heap ?mem')"
      "heap ?mem' ! a = FrameObj ?df'"
      using Cons.prems by (simp_all add: store_def)
    from Cons.IH [OF this]
    have "fill_loop cols ?mem' = (store a (FrameObj (fill_missing cols ?df')) mem, Inr ())"
      by (simp add: store_twice)
    with at False show ?thesis by simp
  qed
qed

text \<open>
  The run over the store, step by step: three tables and, on success, the predicted row
  are added behind the objects that were there; of those only the estimator is written,
  with the state its \<^verbatim>\<open>predict\<close> returns; and the outcome is the one of \<^const>\<open>predict\<close>
  on the table of \<^const>\<open>encode\<close>.
\<close>

lemma encode_steps:
  "get_dummies [(''year'', IntC year_input), (''id'', StrC station_id)] [''id'']
     = Inr [(''year'', IntC year_input), (''id_'' @ station_id, BoolC True)]"
  "getitem (fill_missing cols [(''year'', IntC year_input), (''id_'' @ station_id, BoolC True)]) cols
     = encode year_input station_id cols"
  by (simp_all add: encode_def get_dummies_def dummy_col_def)

lemma run_closed_form:
  fixes P :: "('m, 'v) predict_method"
  assumes am: "g ''model'' = Some am" "am < length h" "h ! am = EstObj m"
      and ac: "g ''model_cols'' = Some ac" "ac < length h" "h ! ac = ListObj cols"
      and enc: "encode year_input station_id cols = Inr table"
  shows "\<exists>g' h'.
           lines_104_113 P year_input station_id \<lparr>globals = g, heap = h\<rparr>
             = (\<lparr>globals = g', heap = h'\<rparr>,
                map_sum Raised id (predict (\<lambda>x. fst (P m x)) table))
         \<and> g' ''model'' = Some am \<and> g' ''model_cols'' = Some ac
         \<and> length h \<le> length h'
         \<and> h' ! am = EstObj (snd (P m table))
         \<and> (\<forall>a < length h. a \<noteq> am \<longrightarrow> h' ! a = h ! a)"
proof -
  let ?n = "length h"
  let ?df0 = "[(''year'', IntC year_input), (''id'', StrC station_id)]"
  let ?enc0 = "[(''year'', IntC year_input), (''id_'' @ station_id, BoolC True)]"
  let ?filled = "fill_missing cols ?enc0"
  let ?g1 = "g(''input_df'' \<mapsto> ?n)"
  let ?g2 = "?g1(''input_encoded'' \<mapsto> Suc ?n)"
  let ?g4 = "?g2(''input_encoded'' \<mapsto> Suc (Suc ?n))"
  let ?mem1 = "\<lparr>globals = ?g1, heap = h @ [FrameObj ?df0]\<rparr> :: ('m, 'v) memory"
  let ?mem2 = "\<lparr>globals = ?g2, heap = h @ [FrameObj ?df0, FrameObj ?enc0]\<rparr> :: ('m, 'v) memory"
  let ?mem3 = "\<lparr>globals = ?g2, heap = h @ [FrameObj ?df0, FrameObj ?filled]\<rparr> :: ('m, 'v) memory"
  let ?h4 = "h @ [FrameObj ?df0, FrameObj ?filled, FrameObj table]"
  let ?mem4 = "\<lparr>globals = ?g4, heap = ?h4\<rparr> :: ('m, 'v) memory"
  have s1: "line_104 year_input station_id \<lparr>globals = g, heap = h\<rparr> = (?mem1, Inr ())"
    by (simp add: line_104_def new_def)
  have "frame_at ?mem1 ''input_df'' = Inr (?n, ?df0)"
    by (simp add: frame_at_def lookup_def)
  then have s2: "line_105 ?mem1 = (?mem2, Inr ())"
    by (simp add: line_105_def encode_steps(1) new_def)
  have l3: "list_at ?mem2 ''model_cols'' = Inr (ac, cols)"
    using ac by (intro list_at_hit) (simp_all add: nth_append)
  have "fill_loop cols ?mem2 = (store (Suc ?n) (FrameObj ?filled) ?mem2, Inr ())"
    by (rule fill_loop_heap) (simp_all add: nth_append)
  also have "store (Suc ?n) (FrameObj ?filled) ?mem2 = ?mem3"
    by (simp add: store_def list_update_append)
  finally have loop: "fill_loop cols ?mem2 = (?mem3, Inr ())" .
  have s3: "lines_107_109 ?mem2 = (?mem3, Inr ())"
    by (simp only: lines_107_109_def l3 sum.case case_prod_conv loop)
  have f4: "frame_at ?mem3 ''input_encoded'' = Inr (Suc ?n, ?filled)"
    by (intro frame_at_hit) (simp_all add: nth_append)
  have l4: "list_at ?mem3 ''model_cols'' = Inr (ac, cols)"
    using ac by (intro list_at_hit) (simp_all add: nth_append)
  have "getitem ?filled cols = Inr table"
    using enc unfolding encode_steps(2) .
  with f4 l4 have s4: "line_110 ?mem3 = (?mem4, Inr ())"
    by (simp add: line_110_def new_def)
  have e5: "est_at ?mem4 ''model'' = Inr (am, m)"
    using am by (intro est_at_hit) (simp_all add: nth_append)
  have f5: "frame_at ?mem4 ''input_encoded'' = Inr (Suc (Suc ?n), table)"
    by (intro frame_at_hit) (simp_all add: nth_append)
  obtain answer m' where p: "P m table = (answer, m')" by (cases "P m table")
  let ?h5 = "?h4[am := EstObj m']"
  have old: "?h5 ! am = EstObj m'" "\<forall>a < length h. a \<noteq> am \<longrightarrow> ?h5 ! a = h ! a"
    using am(2) by (simp_all add: nth_append)
  have older: "\<forall>a < length h. a \<noteq> am \<longrightarrow> (?h5 @ [ob]) ! a = h ! a" "(?h5 @ [ob]) ! am = EstObj m'"
    for ob :: "('m, 'v) obj"
    using am(2) by (simp_all add: nth_append)
  have run: "lines_104_113 P year_input station_id \<lparr>globals = g, heap = h\<rparr> = line_113 P ?mem4"
    by (simp only: lines_104_113_def seq_def s1 s2 s3 s4 prod.case sum.case)
  show ?thesis
  proof (cases answer)
    case (Inl e)
    with p e5 f5 have "line_113 P ?mem4 = (\<lparr>globals = ?g4, heap = ?h5\<rparr>, Inl (Raised e))"
      by (simp add: line_113_def store_def)
    moreover from p Inl have "map_sum Raised id (predict (\<lambda>x. fst (P m x)) table) = Inl (Raised e)"
      by (simp add: predict_def)
    ultimately show ?thesis using run am ac old p
      by (intro exI [of _ ?g4] exI [of _ ?h5]) simp
  next
    case (Inr result)
    show ?thesis
    proof (cases result)
      case Nil
      with Inr p e5 f5
      have "line_113 P ?mem4 = (\<lparr>globals = ?g4, heap = ?h5\<rparr>, Inl (Raised IndexError))"
        by (simp add: line_113_def store_def)
      moreover from p Inr Nil
      have "map_sum Raised id (predict (\<lambda>x. fst (P m x)) table) = Inl (Raised IndexError)"
        by (simp add: predict_def)
      ultimately show ?thesis using run am ac old p
        by (intro exI [of _ ?g4] exI [of _ ?h5]) simp
    next
      case (Cons row rows)
      let ?g6 = "?g4(''predicted_pollutants'' \<mapsto> length ?h5)"
      let ?h6 = "?h5 @ [ArrayObj row]"
      from Cons Inr p e5 f5
      have "line_113 P ?mem4 = (\<lparr>globals = ?g6, heap = ?h6\<rparr>, Inr row)"
        by (simp add: line_113_def store_def new_def)
      moreover from p Inr Cons
      have "map_sum Raised id (predict (\<lambda>x. fst (P m x)) table) = Inr row"
        by (simp add: predict_def)
      ultimately show ?thesis using run am ac older [of "ArrayObj row"] p
        by (intro exI [of _ ?g6] exI [of _ ?h6]) simp
    qed
  qed
qed

lemma store_run_refines:
  fixes P :: "('m, 'v) predict_method"
  assumes "globals mem ''model'' = Some am" "am < length (heap mem)" "heap mem ! am = EstObj m"
      and "globals mem ''model_cols'' = Some ac" "ac < length (heap mem)"
          "heap mem ! ac = ListObj cols"
  shows "snd (lines_104_113 P year_input station_id mem)
           = map_sum Raised snd
               (encode_predict \<lparr>model = \<lambda>x. fst (P m x), model_cols = cols, screen = ws\<rparr>
                  year_input station_id)"
proof -
  obtain table where enc: "encode year_input station_id cols = Inr table"
    using encode_succeeds by blast
  have mem: "mem = \<lparr>globals = globals mem, heap = heap mem\<rparr>" by simp
  from run_closed_form [OF assms enc, of P]
  have "snd (lines_104_113 P year_input station_id \<lparr>globals = globals mem, heap = heap mem\<rparr>)
          = map_sum Raised id (predict (\<lambda>x. fst (P m x)) table)"
    by auto
  moreover have "map_sum Raised snd
               (encode_predict \<lparr>model = \<lambda>x. fst (P m x), model_cols = cols, screen = ws\<rparr>
                  year_input station_id)
          = map_sum Raised id (predict (\<lambda>x. fst (P m x)) table)"
    by (cases "predict (\<lambda>x. fst (P m x)) table") (simp_all add: encode_predict_def enc)
  ultimately show ?thesis using mem by simp
qed

section \<open>The artifacts after a run\<close>



section \<open>Facts about the page\<close>

lemma show_results_no_warning: "Station_warning \<notin> set (show_results station_id year_input ps)"
  by (auto simp: show_results_def)

lemma page_invalid: "page s True year_input [] = [Station_warning]"
  by (simp add: page_def)

lemma page_valid:
  "station_id \<noteq> [] \<Longrightarrow>
   page s True year_input station_id =
     (case encode_predict s year_input station_id of
        Inl e \<Rightarrow> [Exception e]
      | Inr (input_encoded, predicted_pollutants) \<Rightarrow>
          show_results station_id year_input predicted_pollutants)"
  by (simp add: page_def)

lemma page_valid_no_warning:
  "station_id \<noteq> [] \<Longrightarrow> Station_warning \<notin> set (page s True year_input station_id)"
  by (auto simp: page_valid show_results_no_warning split: sum.splits)

lemma page_idle_no_warning: "Station_warning \<notin> set (page s False year_input station_id)"
  by (simp add: page_def)

section \<open>Properties of the prediction step and of the page\<close>

text \<open>
  C6. With an estimator fitted on six targets, line 113 either yields a list of exactly six
  values or raises; it never yields a shorter or longer list.
\<close>

theorem predict_six_values:
  assumes "trained_on 6 m"
  shows "(\<exists>vals. predict m x = Inr vals \<and> length vals = 6) \<or> (\<exists>e. predict m x = Inl e)"
proof (cases "m x")
  case (Inl e)
  then show ?thesis by (simp add: predict_def)
next
  case (Inr result)
  show ?thesis
  proof (cases result)
    case Nil
    with Inr show ?thesis by (simp add: predict_def)
  next
    case (Cons row rows)
    with Inr assms have "length row = 6"
      unfolding trained_on_def by fastforce
    with Inr Cons show ?thesis by (simp add: predict_def)
  qed
qed

theorem predict_six_values_witness:
  "trained_on 6 demo_model
   \<and> predict demo_model [(''year'', IntC 2025), (''id_1'', BoolC True), (''id_2'', IntC 0)]
       = Inr [8, 5, 1, 40, 2, 60]
   \<and> predict demo_model [(''year'', IntC 2025)] = Inl InferenceError"
proof -
  have h: "trained_on 6 demo_model"
    by (auto simp: trained_on_def demo_model_def split: if_splits)
  have "predict demo_model [(''year'', IntC 2025), (''id_1'', BoolC True), (''id_2'', IntC 0)]
       = Inr [8, 5, 1, 40, 2, 60]"
    "predict demo_model [(''year'', IntC 2025)] = Inl InferenceError"
    by (simp_all add: predict_def demo_model_def)
  with h predict_six_values [OF h] show ?thesis by simp
qed

text \<open>
  C7. The warning about the station is shown exactly when the button was pressed and the
  station text is empty; then it is the only element shown, whatever the estimator and the
  columns are, so nothing of the encoding or the prediction reaches the page. The year
  comes from the slider as an integer, so there is no year that is not a number.
\<close>

theorem station_warning_iff_empty:
  "(Station_warning \<in> set (page s predict_button year_input station_id)
      \<longleftrightarrow> predict_button \<and> station_id = [])
   \<and> (predict_button \<and> station_id = []
      \<longrightarrow> screen (handler s predict_button year_input station_id) = [Station_warning])"
proof -
  have "Station_warning \<in> set (page s predict_button year_input station_id)
      \<longleftrightarrow> predict_button \<and> station_id = []"
  proof (cases predict_button)
    case False
    then show ?thesis using page_idle_no_warning [of s year_input station_id] by simp
  next
    case True
    then show ?thesis
      using page_valid_no_warning [of station_id s year_input] page_invalid [of s year_input]
      by (cases "station_id = []") simp_all
  qed
  moreover have "screen (handler s predict_button year_input station_id) = [Station_warning]"
    if "predict_button \<and> station_id = []"
    using that page_invalid [of s year_input] by (simp add: handler_def)
  ultimately show ?thesis by blast
qed

theorem station_warning_iff_empty_witness:
  "screen (handler (demo_state []) True 2025 []) = [Station_warning]
   \<and> Station_warning \<in> set (page (demo_state []) True 2025 [])
   \<and> Station_warning \<notin> set (page (demo_state []) True 2025 ''1'')
   \<and> Station_warning \<notin> set (page (demo_state []) False 2025 [])"
  using station_warning_iff_empty [of "demo_state []" True 2025 "[]"]
    station_warning_iff_empty [of "demo_state []" True 2025 "''1''"]
    station_warning_iff_empty [of "demo_state []" False 2025 "[]"]
  by simp

text \<open>
  C8. For every integer year, inside or outside the range of the slider, the encoding step
  succeeds and every column called \<^verbatim>\<open>year\<close> of its table holds that integer as it
  came; if \<^verbatim>\<open>model_cols\<close> names \<^verbatim>\<open>year\<close>, the table has such a column.
\<close>

theorem year_passed_through:
  "\<exists>out. encode year_input station_id mcols = Inr out
         \<and> (\<forall>(c, v) \<in> set out. c = ''year'' \<longrightarrow> v = IntC year_input)
         \<and> (''year'' \<in> set mcols \<longrightarrow> (''year'', IntC year_input) \<in> set out)"
proof -
  obtain out where out: "encode year_input station_id mcols = Inr out"
    using encode_succeeds by blast
  have "v = IntC year_input" if "(c, v) \<in> set out" and "c = ''year''" for c v
    using encode_cells(2) [OF out that(1)] that(2) by simp
  moreover have "(''year'', IntC year_input) \<in> set out" if "''year'' \<in> set mcols"
    using encode_has [OF out that] by simp
  ultimately show ?thesis using out by blast
qed

theorem year_passed_through_witness:
  "(\<exists>out. encode 1492 ''1'' [''year'', ''id_1''] = Inr out
         \<and> (\<forall>(c, v) \<in> set out. c = ''year'' \<longrightarrow> v = IntC 1492)
         \<and> (''year'', IntC 1492) \<in> set out)
   \<and> (\<exists>out. encode (- 7) ''1'' [''year'', ''id_1''] = Inr out
         \<and> (''year'', IntC (- 7)) \<in> set out)"
  using year_passed_through [of 1492 "''1''" "[''year'', ''id_1'']"]
    year_passed_through [of "- 7" "''1''" "[''year'', ''id_1'']"]
  by auto

text \<open>
  C10. Any station text other than the empty one passes the check of line 100, a single
  blank included: no warning is shown, the table is built, and the page shows what the
  prediction on that table gives.
\<close>

theorem nonempty_station_proceeds:
  assumes "station_id \<noteq> []"
  shows "Station_warning \<notin> set (page s True year_input station_id)
       \<and> (\<exists>input_encoded. encode year_input station_id (model_cols s) = Inr input_encoded
            \<and> page s True year_input station_id =
                (case predict (model s) input_encoded of
                   Inl e \<Rightarrow> [Exception e]
                 | Inr predicted_pollutants \<Rightarrow>
                     show_results station_id year_input predicted_pollutants))"
proof -
  obtain input_encoded where enc: "encode year_input station_id (model_cols s) = Inr input_encoded"
    by (simp add: encode_closed_form)
  have "page s True year_input station_id =
                (case predict (model s) input_encoded of
                   Inl e \<Rightarrow> [Exception e]
                 | Inr predicted_pollutants \<Rightarrow>
                     show_results station_id year_input predicted_pollutants)"
    using assms enc by (simp add: page_def encode_predict_def split: sum.splits)
  with enc page_valid_no_warning [OF assms] show ?thesis by blast
qed

theorem nonempty_station_proceeds_witness:
  "'' '' \<noteq> []
   \<and> Station_warning \<notin> set (page (demo_state []) True 2025 '' '')
   \<and> encode 2025 '' '' (model_cols (demo_state [])) =
        Inr [(''year'', IntC 2025), (''id_1'', IntC 0), (''id_2'', IntC 0)]
   \<and> page (demo_state []) True 2025 '' '' = show_results '' '' 2025 [8, 5, 1, 40, 2, 60]"
proof -
  have h: "'' '' \<noteq> []" by simp
  have enc: "encode 2025 '' '' (model_cols (demo_state [])) =
        Inr [(''year'', IntC 2025), (''id_1'', IntC 0), (''id_2'', IntC 0)]"
    by (simp add: encode_closed_form demo_state_def)
  have "predict (model (demo_state [])) [(''year'', IntC 2025), (''id_1'', IntC 0), (''id_2'', IntC 0)]
        = Inr [8, 5, 1, 40, 2, 60]"
    by (simp add: predict_def demo_state_def demo_model_def)
  with enc nonempty_station_proceeds [OF h, of "demo_state []" 2025] show ?thesis by auto
qed

end
